theory Spec2Isabelle
  imports Main "HOL-Library.Sublist"
begin

section \<open>Text primitives of the host language\<close>

text \<open>
  The program is a Python script (\<^verbatim>\<open>horror-gen.py\<close>). A Python \<^verbatim>\<open>str\<close> is modelled as a
  \<^typ>\<open>string\<close> whose characters are the code points below 256; \<^verbatim>\<open>len\<close> is \<^const>\<open>length\<close>.
  The built-in string methods the script calls are written out below for that range.
  The script prints progress messages throughout. A print that could only end the run is
  left out of the model and taken to succeed; the print of line 425 is modelled, because
  an exception it raises is caught by the handler of the frame composer after the frame
  path has been appended.
\<close>

type_synonym path = string

definition LF :: char where
  "LF = CHR 0x0A"

definition CR :: char where
  "CR = CHR 0x0D"

definition SP :: char where
  "SP = CHR 0x20"

definition DQUOTE :: char where
  "DQUOTE = CHR 0x22"

definition APOS :: char where
  "APOS = CHR 0x27"

text \<open>\<^verbatim>\<open>str.isspace\<close> on one character: tab to carriage return, the four separators
  \<^verbatim>\<open>0x1C..0x1F\<close>, space, next-line and no-break space.\<close>

definition is_space :: "char \<Rightarrow> bool" where
  "is_space c =
     (let n = (of_char c :: nat)
      in (9 \<le> n \<and> n \<le> 13) \<or> (28 \<le> n \<and> n \<le> 32) \<or> n = 133 \<or> n = 160)"

text \<open>\<^verbatim>\<open>s.strip()\<close>: leading and trailing whitespace removed.\<close>

definition strip :: "string \<Rightarrow> string" where
  "strip s = rev (dropWhile is_space (rev (dropWhile is_space s)))"

text \<open>\<^verbatim>\<open>s.lower()\<close>, character by character.\<close>

definition lower_char :: "char \<Rightarrow> char" where
  "lower_char c =
     (let n = (of_char c :: nat)
      in if (65 \<le> n \<and> n \<le> 90) \<or> (192 \<le> n \<and> n \<le> 222 \<and> n \<noteq> 215)
         then char_of (n + 32) else c)"

definition lower :: "string \<Rightarrow> string" where
  "lower s = map lower_char s"

text \<open>\<^verbatim>\<open>s.replace(c, '')\<close> for a one-character \<^verbatim>\<open>c\<close>.\<close>

definition remove_char :: "char \<Rightarrow> string \<Rightarrow> string" where
  "remove_char c s = filter (\<lambda>x. x \<noteq> c) s"

text \<open>\<^verbatim>\<open>s.split()\<close> without arguments: the maximal runs of non-whitespace characters, in
  order. The scan carries the word read so far.\<close>

fun split_scan :: "string \<Rightarrow> string \<Rightarrow> string list" where
  "split_scan w [] = (if w = [] then [] else [w])"
| "split_scan w (c # cs) =
     (if is_space c then (if w = [] then split_scan [] cs else w # split_scan [] cs)
      else split_scan (w @ [c]) cs)"

definition split_ws :: "string \<Rightarrow> string list" where
  "split_ws s = split_scan [] s"

text \<open>\<^verbatim>\<open>s.split(sep)\<close> with a separator: a left-to-right scan for non-overlapping
  occurrences; the pieces between them are returned, empty pieces included. (Python
  raises \<^verbatim>\<open>ValueError\<close> on an empty separator; the script only passes the constants
  \<^verbatim>\<open>'\n'\<close> and \<^verbatim>\<open>' - '\<close>.)\<close>

fun split_sep_scan :: "string \<Rightarrow> string \<Rightarrow> string \<Rightarrow> string list" where
  "split_sep_scan sep piece [] = [piece]"
| "split_sep_scan sep piece (c # cs) =
     (if prefix sep (c # cs) then piece # split_sep_scan sep [] (drop (length sep - 1) cs)
      else split_sep_scan sep (piece @ [c]) cs)"

definition split_sep :: "string \<Rightarrow> string \<Rightarrow> string list" where
  "split_sep sep s = split_sep_scan sep [] s"

text \<open>\<^verbatim>\<open>str(n)\<close> and the \<^verbatim>\<open>{n}\<close> of an f-string, for an integer: decimal digits, with a
  minus sign for a negative number.\<close>

definition digit_char :: "nat \<Rightarrow> char" where
  "digit_char d = char_of (48 + d)"

fun str_nat :: "nat \<Rightarrow> string" where
  "str_nat n = (if n < 10 then [digit_char n] else str_nat (n div 10) @ [digit_char (n mod 10)])"

declare str_nat.simps [simp del]

definition str_int :: "int \<Rightarrow> string" where
  "str_int i = (if i < 0 then CHR ''-'' # str_nat (nat (- i)) else str_nat (nat i))"

text \<open>\<^verbatim>\<open>' '.join(ws)\<close>.\<close>

fun join_space :: "string list \<Rightarrow> string" where
  "join_space [] = []"
| "join_space [w] = w"
| "join_space (w # v # ws) = w @ SP # join_space (v # ws)"

section \<open>Frame composer: greedy word wrap\<close>

text \<open>
  Lines 380--398 of \<^verbatim>\<open>create_frames_with_text\<close>. The loop state is the pair of
  \<^verbatim>\<open>current_line\<close> (a list of words) and \<^verbatim>\<open>lines\<close> (the finished lines).
\<close>

definition max_chars_per_line :: nat where
  "max_chars_per_line = 25"

fun wrap_loop :: "string list \<Rightarrow> string list \<Rightarrow> string list \<Rightarrow> string list \<times> string list" where
  "wrap_loop [] current_line lines = (current_line, lines)"
| "wrap_loop (word # words) current_line lines =
     (if length (join_space (current_line @ [word])) \<le> max_chars_per_line
      then wrap_loop words (current_line @ [word]) lines
      else if current_line \<noteq> []
           then wrap_loop words [word] (lines @ [join_space current_line])
           else wrap_loop words current_line (lines @ [word]))"

definition wrap_lines :: "string list \<Rightarrow> string list" where
  "wrap_lines words =
     (case wrap_loop words [] [] of
        (current_line, lines) \<Rightarrow>
          if current_line \<noteq> [] then lines @ [join_space current_line] else lines)"

definition wrap_text :: "string \<Rightarrow> string list" where
  "wrap_text quote_text = wrap_lines (split_ws quote_text)"

section \<open>Quote source\<close>

text \<open>
  \<^verbatim>\<open>get_horror_movie_quotes\<close>. Text files are a map from paths to contents. The chat
  completion endpoint, the random theme and seed and the clock are outside the program:
  the endpoint is a parameter that gives, for the attempt number and the number of quotes
  asked for in the prompt, the text of the reply, or \<open>None\<close> when anything in the
  \<^verbatim>\<open>try\<close> block raises. File operations are taken to succeed.
\<close>

type_synonym text_files = "path \<rightharpoonup> string"

type_synonym chat_api = "nat \<Rightarrow> int \<Rightarrow> string option"

definition history_file :: path where
  "history_file = ''quotes_history.txt''"

definition quote_file :: "nat \<Rightarrow> path" where
  "quote_file i = ''quotes/quote_'' @ str_nat (i + 1) @ ''.txt''"

text \<open>Line 86 and line 137: the normalisation used for comparison.\<close>

definition normalize :: "string \<Rightarrow> string" where
  "normalize s = strip (remove_char APOS (remove_char DQUOTE (lower s)))"

text \<open>Reading a file opened in text mode: \<^verbatim>\<open>\r\n\<close> and \<^verbatim>\<open>\r\<close> are read as \<^verbatim>\<open>\n\<close>,
  and iteration yields the lines with their terminator.\<close>

fun universal_newlines :: "string \<Rightarrow> string" where
  "universal_newlines [] = []"
| "universal_newlines [c] = (if c = CR then [LF] else [c])"
| "universal_newlines (c # d # cs) =
     (if c = CR \<and> d = LF then LF # universal_newlines cs
      else if c = CR then LF # universal_newlines (d # cs)
      else c # universal_newlines (d # cs))"

fun lines_scan :: "string \<Rightarrow> string \<Rightarrow> string list" where
  "lines_scan l [] = (if l = [] then [] else [l])"
| "lines_scan l (c # cs) =
     (if c = LF then (l @ [c]) # lines_scan [] cs else lines_scan (l @ [c]) cs)"

definition file_lines :: "string \<Rightarrow> string list" where
  "file_lines content = lines_scan [] (universal_newlines content)"

definition history_lines :: "text_files \<Rightarrow> string list" where
  "history_lines fs = (case fs history_file of None \<Rightarrow> [] | Some content \<Rightarrow> file_lines content)"

text \<open>Lines 79--87: the set of normalised quotes already used.\<close>

fun load_history :: "string list \<Rightarrow> string set \<Rightarrow> string set" where
  "load_history [] used_quotes = used_quotes"
| "load_history (line # rest) used_quotes =
     (let line = strip line
      in if line \<noteq> [] then load_history rest (insert (normalize line) used_quotes)
         else load_history rest used_quotes)"

text \<open>Line 129: the non-blank lines of the reply, stripped.\<close>

definition quote_lines :: "string \<Rightarrow> string list" where
  "quote_lines content = filter (\<lambda>l. l \<noteq> []) (map strip (split_sep [LF] content))"

text \<open>Lines 132--145: the uniqueness check over the lines of one reply.\<close>

fun check_quotes :: "int \<Rightarrow> string list \<Rightarrow> string set \<times> string list \<Rightarrow> string set \<times> string list" where
  "check_quotes count [] st = st"
| "check_quotes count (quote # rest) (used_quotes, all_new_quotes) =
     (if int (length all_new_quotes) \<ge> count then (used_quotes, all_new_quotes)
      else if normalize quote \<notin> used_quotes
           then check_quotes count rest (insert (normalize quote) used_quotes, all_new_quotes @ [quote])
           else check_quotes count rest (used_quotes, all_new_quotes))"

text \<open>Lines 95--149: the attempts.\<close>

definition max_attempts :: nat where
  "max_attempts = 5"

fun attempt_loop :: "chat_api \<Rightarrow> int \<Rightarrow> nat list \<Rightarrow> string set \<times> string list \<Rightarrow> string set \<times> string list" where
  "attempt_loop api count [] st = st"
| "attempt_loop api count (attempt # rest) (used_quotes, all_new_quotes) =
     (if int (length all_new_quotes) \<ge> count then (used_quotes, all_new_quotes)
      else case api attempt (count - int (length all_new_quotes)) of
             None \<Rightarrow> attempt_loop api count rest (used_quotes, all_new_quotes)
           | Some content \<Rightarrow>
               attempt_loop api count rest
                 (check_quotes count (quote_lines content) (used_quotes, all_new_quotes)))"

text \<open>Lines 155--157: one file per quote, overwritten.\<close>

fun store_quotes :: "nat \<Rightarrow> string list \<Rightarrow> text_files \<Rightarrow> text_files" where
  "store_quotes i [] fs = fs"
| "store_quotes i (quote # rest) fs = store_quotes (i + 1) rest (fs(quote_file i \<mapsto> quote))"

text \<open>Lines 160--163: the history file opened for appending (created when missing), one
  \<^verbatim>\<open>write\<close> per quote.\<close>

fun write_quotes :: "string list \<Rightarrow> string \<Rightarrow> string" where
  "write_quotes [] buffer = buffer"
| "write_quotes (quote # rest) buffer = write_quotes rest (buffer @ quote @ [LF])"

definition append_history :: "string list \<Rightarrow> text_files \<Rightarrow> text_files" where
  "append_history quotes fs =
     fs(history_file \<mapsto> write_quotes quotes (case fs history_file of None \<Rightarrow> [] | Some c \<Rightarrow> c))"

definition get_horror_movie_quotes :: "chat_api \<Rightarrow> int \<Rightarrow> text_files \<Rightarrow> string list \<times> text_files" where
  "get_horror_movie_quotes api count fs =
     (let used_quotes = load_history (history_lines fs) {};
          all_new_quotes = snd (attempt_loop api count [0..<max_attempts] (used_quotes, []));
          fs = store_quotes 0 all_new_quotes fs;
          fs = (if all_new_quotes \<noteq> [] then append_history all_new_quotes fs else fs)
      in (all_new_quotes, fs))"

text \<open>A scripted endpoint for examples: the reply to attempt \<open>k\<close> is the \<open>k\<close>-th entry.\<close>

definition scripted_api :: "string option list \<Rightarrow> chat_api" where
  "scripted_api replies attempt n = (if attempt < length replies then replies ! attempt else None)"

section \<open>Frame composer\<close>

text \<open>
  \<^verbatim>\<open>create_frames_with_text\<close>. Lines 291--293 split the quote; line 296 removes a leading
  enumeration marker with the regular expression \<^verbatim>\<open>^\d+[\.\)]\s*\<close>.
\<close>

definition separator :: string where
  "separator = '' - ''"

definition split_quote :: "string \<Rightarrow> string + string \<times> string" where
  "split_quote quote =
     (case split_sep separator quote of
        [] \<Rightarrow> Inl ''list index out of range''
      | p0 # ps \<Rightarrow> Inr (strip p0, case ps of [] \<Rightarrow> ''Unknown'' | p1 # _ \<Rightarrow> strip p1))"

definition is_digit :: "char \<Rightarrow> bool" where
  "is_digit c = (48 \<le> (of_char c :: nat) \<and> (of_char c :: nat) \<le> 57)"

definition strip_enum :: "string \<Rightarrow> string" where
  "strip_enum s =
     (case dropWhile is_digit s of
        [] \<Rightarrow> s
      | c # cs \<Rightarrow>
          if takeWhile is_digit s \<noteq> [] \<and> (c = CHR ''.'' \<or> c = CHR '')'')
          then dropWhile is_space cs else s)"

text \<open>
  The imaging library is outside the program. What the composer needs from it is
  \<^item> whether the background loads (lines 312--342; otherwise a plain black image is
    substituted);
  \<^item> whether a call of the \<^verbatim>\<open>try\<close> block up to the save of line 422 raises, and with
    which message;
  \<^item> whether the print of line 425 raises: it stands inside the \<^verbatim>\<open>try\<close> block, after the
    frame has been saved and its path appended (line 423);
  \<^item> whether a call of the \<^verbatim>\<open>except\<close> handler (lines 428--435) raises: the handler
    has no guard of its own, so the exception leaves \<^verbatim>\<open>create_frames_with_text\<close>.

  A frame file is recorded by what was drawn on it. The result of the function is
  \<open>Inr\<close> of the frame paths and the frame files, or \<open>Inl\<close> of the message of the
  exception that left it.
\<close>

datatype backdrop = Gradient path | PlainBlack

datatype frame_image = TextFrame backdrop "string list" string | ErrorFrame string

record imaging =
  background_loads :: "path \<Rightarrow> bool"
  draw_error :: "nat \<Rightarrow> string list \<Rightarrow> string \<Rightarrow> string option"
  created_print_error :: "nat \<Rightarrow> string option"
  handler_error :: "nat \<Rightarrow> string option"

type_synonym frame_files = "path \<rightharpoonup> frame_image"

definition frame_file :: "nat \<Rightarrow> path" where
  "frame_file i = ''frames/frame_'' @ str_nat (i + 1) @ ''.png''"

text \<open>Lines 291--422, the \<^verbatim>\<open>try\<close> block for one frame up to the save: \<open>Inl\<close> is a raised
  exception, \<open>Inr\<close> the image saved.\<close>

definition compose_frame :: "imaging \<Rightarrow> nat \<Rightarrow> path \<Rightarrow> string \<Rightarrow> string + frame_image" where
  "compose_frame env i background_path quote =
     (case split_quote quote of
        Inl e \<Rightarrow> Inl e
      | Inr (quote_text, movie_title) \<Rightarrow>
          (let quote_text = strip_enum quote_text;
               img = (if background_loads env background_path
                      then Gradient background_path else PlainBlack);
               lines = wrap_text quote_text;
               movie_text = ''- '' @ movie_title
           in case draw_error env i lines movie_text of
                Some e \<Rightarrow> Inl e
              | None \<Rightarrow> Inr (TextFrame img lines movie_text)))"

text \<open>Lines 427--436, the \<^verbatim>\<open>except\<close> handler for the exception \<open>e\<close>: the error frame is
  saved (line 435) and its path appended (line 436), unless a call of the handler raises.\<close>

definition error_handler ::
  "imaging \<Rightarrow> nat \<Rightarrow> string \<Rightarrow> path list \<times> frame_files \<Rightarrow> string + path list \<times> frame_files" where
  "error_handler env i e st =
     (case st of (frame_paths, files) \<Rightarrow>
        (case handler_error env i of
           Some e' \<Rightarrow> Inl e'
         | None \<Rightarrow>
             Inr (frame_paths @ [frame_file i],
                  files(frame_file i \<mapsto> ErrorFrame (''Error: '' @ e)))))"

text \<open>One iteration of the loop of lines 285--436. When the frame has been composed it is
  saved (line 422) and its path appended (line 423); an exception of the print of line 425
  then reaches the handler with the path already in the list.\<close>

definition frame_step ::
  "imaging \<Rightarrow> nat \<Rightarrow> path \<Rightarrow> string \<Rightarrow> path list \<times> frame_files \<Rightarrow>
   string + path list \<times> frame_files" where
  "frame_step env i background_path quote st =
     (case st of (frame_paths, files) \<Rightarrow>
        (case compose_frame env i background_path quote of
           Inl e \<Rightarrow> error_handler env i e (frame_paths, files)
         | Inr img \<Rightarrow>
             (let saved = (frame_paths @ [frame_file i], files(frame_file i \<mapsto> img))
              in case created_print_error env i of
                   None \<Rightarrow> Inr saved
                 | Some e \<Rightarrow> error_handler env i e saved)))"

fun frames_loop ::
  "imaging \<Rightarrow> nat \<Rightarrow> (path \<times> string) list \<Rightarrow> path list \<times> frame_files \<Rightarrow>
   string + path list \<times> frame_files" where
  "frames_loop env i [] st = Inr st"
| "frames_loop env i ((background_path, quote) # rest) st =
     (case frame_step env i background_path quote st of
        Inl e \<Rightarrow> Inl e
      | Inr st \<Rightarrow> frames_loop env (i + 1) rest st)"

definition create_frames_with_text ::
  "imaging \<Rightarrow> path list \<Rightarrow> string list \<Rightarrow> frame_files \<Rightarrow> string + path list \<times> frame_files" where
  "create_frames_with_text env background_paths quotes files =
     frames_loop env 0 (zip background_paths quotes) ([], files)"

section \<open>Video assembler\<close>

text \<open>
  \<^verbatim>\<open>create_video\<close>. Media files are a map from paths to contents. The operating system is
  a parameter: \<^verbatim>\<open>os.path.abspath\<close>, the fresh names of \<^verbatim>\<open>tempfile\<close> (\<open>None\<close> when the
  call raises) and \<^verbatim>\<open>subprocess.run\<close>, which for a command line and the files it finds
  either raises (\<open>None\<close>) or ends with a return code, having possibly written its output
  file, the last argument of the encoder's command line; and whether \<^verbatim>\<open>shutil.copy2\<close>
  cannot write its destination (the directory is missing or not writable, the disk is
  full).
\<close>

type_synonym media_files = "path \<rightharpoonup> string"

datatype 'a outcome = Returned 'a | Exited int

datatype video_error =
  TempDirFailed | TempFileFailed | ProcessRaised | SilentVideoFailed | CopyFailed | FinalVideoMissing

record proc_result =
  returncode :: int
  produced :: "string option"

record system =
  abspath :: "path \<Rightarrow> path"
  mkdtemp :: "path option"
  named_temporary_file :: "path option"
  subprocess_run :: "string list \<Rightarrow> media_files \<Rightarrow> proc_result option"
  copy_error :: "path \<Rightarrow> path \<Rightarrow> media_files \<Rightarrow> bool"

text \<open>Lines 494--502: the demuxer manifest, one \<^verbatim>\<open>write\<close> after the other.\<close>

definition file_entry :: "path \<Rightarrow> string" where
  "file_entry frame_path = ''file '' @ [APOS] @ frame_path @ [APOS, LF]"

definition duration_entry :: "int \<Rightarrow> string" where
  "duration_entry duration_per_frame = ''duration '' @ str_int duration_per_frame @ [LF]"

fun write_frames :: "path list \<Rightarrow> int \<Rightarrow> string \<Rightarrow> string" where
  "write_frames [] duration_per_frame buffer = buffer"
| "write_frames (frame_path # rest) duration_per_frame buffer =
     write_frames rest duration_per_frame
       (buffer @ file_entry frame_path @ duration_entry duration_per_frame)"

definition write_manifest :: "path list \<Rightarrow> int \<Rightarrow> string" where
  "write_manifest abs_frame_paths duration_per_frame =
     (let buffer = write_frames abs_frame_paths duration_per_frame []
      in if abs_frame_paths \<noteq> [] then buffer @ file_entry (last abs_frame_paths) else buffer)"

definition audio_check_cmd :: "path \<Rightarrow> string list" where
  "audio_check_cmd abs_music_path = [''ffprobe'', ''-v'', ''error'', ''-i'', abs_music_path]"

definition silent_cmd :: "path \<Rightarrow> path \<Rightarrow> string list" where
  "silent_cmd frame_list_path silent_video_path =
     [''ffmpeg'', ''-y'', ''-f'', ''concat'', ''-safe'', ''0'', ''-i'', frame_list_path,
      ''-c:v'', ''libx264'', ''-pix_fmt'', ''yuv420p'', ''-preset'', ''medium'',
      ''-crf'', ''23'', ''-r'', ''30'', silent_video_path]"

definition audio_cmd :: "path \<Rightarrow> path \<Rightarrow> path \<Rightarrow> string list" where
  "audio_cmd silent_video_path abs_music_path final_video_path =
     [''ffmpeg'', ''-y'', ''-i'', silent_video_path, ''-i'', abs_music_path,
      ''-c:v'', ''copy'', ''-c:a'', ''aac'', ''-b:a'', ''192k'', ''-shortest'', final_video_path]"

text \<open>Lines 471--488.\<close>

definition has_valid_audio :: "system \<Rightarrow> media_files \<Rightarrow> path option \<Rightarrow> bool" where
  "has_valid_audio sys fs abs_music_path =
     (case abs_music_path of
        None \<Rightarrow> False
      | Some m \<Rightarrow>
          fs m \<noteq> None \<and>
          (case subprocess_run sys (audio_check_cmd m) fs of
             None \<Rightarrow> False
           | Some check_result \<Rightarrow> returncode check_result = 0))"

definition run_output :: "path \<Rightarrow> proc_result \<Rightarrow> media_files \<Rightarrow> media_files" where
  "run_output out result fs = (case produced result of None \<Rightarrow> fs | Some c \<Rightarrow> fs(out \<mapsto> c))"

text \<open>\<^verbatim>\<open>shutil.copy2\<close>: raises (\<open>None\<close>) when the source is missing or the destination
  cannot be written.\<close>

definition copy2 :: "system \<Rightarrow> path \<Rightarrow> path \<Rightarrow> media_files \<Rightarrow> media_files option" where
  "copy2 sys src dst fs =
     (case fs src of
        None \<Rightarrow> None
      | Some c \<Rightarrow> if copy_error sys src dst fs then None else Some (fs(dst \<mapsto> c)))"

text \<open>Lines 590--595: the temporary directory and the manifest are removed.\<close>

definition cleanup :: "path \<Rightarrow> path \<Rightarrow> media_files \<Rightarrow> media_files" where
  "cleanup temp_dir frame_list_path fs =
     (\<lambda>p. if p = frame_list_path \<or> prefix (temp_dir @ ''/'') p then None else fs p)"

text \<open>Lines 533--582: the audio phase gives the path of the video to deliver. The probe
  of lines 564--579 only prints.\<close>

definition add_audio ::
  "system \<Rightarrow> bool \<Rightarrow> path \<Rightarrow> path option \<Rightarrow> path \<Rightarrow> media_files \<Rightarrow> (video_error + path) \<times> media_files" where
  "add_audio sys valid_audio silent_video_path abs_music_path abs_output_path fs =
     (if valid_audio then
        (case abs_music_path of
           None \<Rightarrow> (Inl ProcessRaised, fs)
         | Some m \<Rightarrow>
             (case subprocess_run sys (audio_cmd silent_video_path m abs_output_path) fs of
                None \<Rightarrow> (Inl ProcessRaised, fs)
              | Some audio_result \<Rightarrow>
                  (if returncode audio_result \<noteq> 0
                   then (Inr silent_video_path, run_output abs_output_path audio_result fs)
                   else (Inr abs_output_path, run_output abs_output_path audio_result fs))))
      else (Inr silent_video_path, fs))"

text \<open>Lines 585--604.\<close>

definition deliver ::
  "system \<Rightarrow> path \<Rightarrow> path \<Rightarrow> path \<Rightarrow> path \<Rightarrow> path \<Rightarrow> media_files \<Rightarrow>
   (video_error + path) \<times> media_files" where
  "deliver sys final_video_path abs_output_path output_path temp_dir frame_list_path fs =
     (case (if final_video_path \<noteq> abs_output_path
            then copy2 sys final_video_path abs_output_path fs else Some fs) of
        None \<Rightarrow> (Inl CopyFailed, fs)
      | Some fs \<Rightarrow>
          (let fs = cleanup temp_dir frame_list_path fs
           in if fs abs_output_path \<noteq> None then (Inr output_path, fs)
              else (Inl FinalVideoMissing, fs)))"

text \<open>The body of the outer \<^verbatim>\<open>try\<close> block (lines 458--604).\<close>

definition try_create_video ::
  "system \<Rightarrow> media_files \<Rightarrow> path list \<Rightarrow> path \<Rightarrow> path option \<Rightarrow> int \<Rightarrow>
   (video_error + path) \<times> media_files" where
  "try_create_video sys fs frame_paths output_path music_path duration_per_frame =
     (let abs_frame_paths = map (abspath sys) frame_paths;
          abs_output_path = abspath sys output_path;
          abs_music_path = map_option (abspath sys) music_path
      in case mkdtemp sys of
           None \<Rightarrow> (Inl TempDirFailed, fs)
         | Some temp_dir \<Rightarrow>
             (let valid_audio = has_valid_audio sys fs abs_music_path
              in case named_temporary_file sys of
                   None \<Rightarrow> (Inl TempFileFailed, fs)
                 | Some frame_list_path \<Rightarrow>
                     (let fs = fs(frame_list_path \<mapsto>
                                  write_manifest abs_frame_paths duration_per_frame);
                          silent_video_path = temp_dir @ ''/silent_video.mp4''
                      in case subprocess_run sys (silent_cmd frame_list_path silent_video_path) fs of
                           None \<Rightarrow> (Inl ProcessRaised, fs)
                         | Some silent_result \<Rightarrow>
                             (let fs = run_output silent_video_path silent_result fs
                              in if returncode silent_result \<noteq> 0 then (Inl SilentVideoFailed, fs)
                                 else (case add_audio sys valid_audio silent_video_path
                                              abs_music_path abs_output_path fs of
                                         (Inl e, fs) \<Rightarrow> (Inl e, fs)
                                       | (Inr final_video_path, fs) \<Rightarrow>
                                           deliver sys final_video_path abs_output_path
                                             output_path temp_dir frame_list_path fs)))))"

text \<open>Lines 606--610: any exception ends the process with \<^verbatim>\<open>sys.exit(1)\<close>.\<close>

definition create_video ::
  "system \<Rightarrow> media_files \<Rightarrow> path list \<Rightarrow> path \<Rightarrow> path option \<Rightarrow> int \<Rightarrow>
   path outcome \<times> media_files" where
  "create_video sys fs frame_paths output_path music_path duration_per_frame =
     (case try_create_video sys fs frame_paths output_path music_path duration_per_frame of
        (Inl e, fs) \<Rightarrow> (Exited 1, fs)
      | (Inr video_path, fs) \<Rightarrow> (Returned video_path, fs))"

section \<open>Background renderer\<close>

text \<open>
  \<^verbatim>\<open>generate_background_image\<close>. An image file is recorded by the colour of each of its
  rows and the ellipses drawn over them, or as the black placeholder. The generator
  \<^verbatim>\<open>random.randint\<close> is a parameter that maps a generator state and two bounds to a
  number and the next state. Which of the two \<^verbatim>\<open>try\<close> blocks raises, if any, is given
  from outside: the inner one after a number of complete rounds of the texture loop, the
  outer one (taken to fail before the texture loop) leaving the black placeholder.
\<close>

type_synonym rgb = "int \<times> int \<times> int"

type_synonym ellipse = "int \<times> int \<times> int \<times> int \<times> int"

type_synonym 'g randint = "'g \<Rightarrow> int \<Rightarrow> int \<Rightarrow> int \<times> 'g"

datatype background = GradientImage "rgb list" "ellipse list" | BlackImage

datatype render_fault = NoFault | TextureFault nat | GradientFault

type_synonym image_files = "path \<rightharpoonup> background"

definition WIDTH :: int where
  "WIDTH = 1080"

definition HEIGHT :: int where
  "HEIGHT = 1920"

definition color_pairs :: "(rgb \<times> rgb) list" where
  "color_pairs =
     [((120, 0, 0), (40, 0, 0)),
      ((0, 0, 120), (0, 0, 40)),
      ((80, 0, 100), (30, 0, 40)),
      ((0, 80, 80), (0, 30, 30)),
      ((100, 80, 0), (40, 30, 0)),
      ((80, 80, 80), (30, 30, 30)),
      ((0, 100, 0), (0, 40, 0)),
      ((100, 0, 100), (40, 0, 40)),
      ((100, 50, 0), (40, 20, 0))]"

text \<open>\<^verbatim>\<open>int(c1 + (c2 - c1) * y / HEIGHT)\<close>: the quotient rounded towards zero. The script
  divides in floating point; for colour values up to 255 and rows below 1920 the exact
  quotient is an integer or is at least \<open>1/1920\<close> away from one, so the rounding error of
  the float cannot change the integer part.\<close>

definition trunc_quot :: "int \<Rightarrow> int \<Rightarrow> int" where
  "trunc_quot a b = (if a < 0 then - ((- a) div b) else a div b)"

definition channel :: "int \<Rightarrow> int \<Rightarrow> int \<Rightarrow> int" where
  "channel c1 c2 y = trunc_quot (c1 * HEIGHT + (c2 - c1) * y) HEIGHT"

definition gradient_row :: "rgb \<Rightarrow> rgb \<Rightarrow> int \<Rightarrow> rgb" where
  "gradient_row color1 color2 y =
     (case (color1, color2) of
        ((r1, g1, b1), (r2, g2, b2)) \<Rightarrow> (channel r1 r2 y, channel g1 g2 y, channel b1 b2 y))"

definition background_file :: "int \<Rightarrow> path" where
  "background_file index = ''images/background_'' @ str_int (index + 1) @ ''.png''"

text \<open>Lines 229--238: each round draws \<^verbatim>\<open>x\<close>, \<^verbatim>\<open>y\<close>, \<^verbatim>\<open>size\<close> (here \<open>sz\<close>) and the
  opacity, in this order.\<close>

fun texture_loop :: "'g randint \<Rightarrow> nat \<Rightarrow> 'g \<Rightarrow> ellipse list \<Rightarrow> ellipse list \<times> 'g" where
  "texture_loop randint 0 g drawn = (drawn, g)"
| "texture_loop randint (Suc n) g drawn =
     (case randint g 0 WIDTH of (x, g) \<Rightarrow>
      case randint g 0 HEIGHT of (y, g) \<Rightarrow>
      case randint g 5 100 of (sz, g) \<Rightarrow>
      case randint g 0 50 of (alpha, g) \<Rightarrow>
        texture_loop randint n g (drawn @ [(x - sz, y - sz, x + sz, y + sz, alpha)]))"

definition generate_background_image ::
  "'g randint \<Rightarrow> render_fault \<Rightarrow> string \<Rightarrow> int \<Rightarrow> 'g \<Rightarrow> image_files \<Rightarrow> path \<times> image_files \<times> 'g" where
  "generate_background_image randint fault quote index g files =
     (let image_path = background_file index
      in case fault of
           GradientFault \<Rightarrow> (image_path, files(image_path \<mapsto> BlackImage), g)
         | _ \<Rightarrow>
             (case color_pairs ! nat (index mod int (length color_pairs)) of
                (color1, color2) \<Rightarrow>
                  (let rows = map (\<lambda>y. gradient_row color1 color2 (int y)) [0..<nat HEIGHT];
                       files = files(image_path \<mapsto> GradientImage rows [])
                   in case fault of
                        TextureFault rounds \<Rightarrow>
                          (image_path, files, snd (texture_loop randint rounds g []))
                      | _ \<Rightarrow>
                          (case texture_loop randint 100 g [] of
                             (drawn, g) \<Rightarrow>
                               (image_path, files(image_path \<mapsto> GradientImage rows drawn), g)))))"

section \<open>Auxiliary notions for the proofs\<close>

text \<open>A word as \<^verbatim>\<open>split()\<close> returns it: not empty and free of whitespace.\<close>

definition good_word :: "string \<Rightarrow> bool" where
  "good_word w = (w \<noteq> [] \<and> (\<forall>c\<in>set w. \<not> is_space c))"

text \<open>The lines once the pending \<^verbatim>\<open>current_line\<close> has been appended (lines 397--398).\<close>

definition flush :: "string list \<times> string list \<Rightarrow> string list" where
  "flush st =
     (case st of (current_line, lines) \<Rightarrow>
        if current_line \<noteq> [] then lines @ [join_space current_line] else lines)"

text \<open>A line within the budget, or a single over-long word of \<open>W\<close>; and the same for the
  pending words.\<close>

definition line_ok :: "string set \<Rightarrow> string \<Rightarrow> bool" where
  "line_ok W l = (length l \<le> max_chars_per_line \<or> (l \<in> W \<and> max_chars_per_line < length l))"

definition cur_ok :: "string set \<Rightarrow> string list \<Rightarrow> bool" where
  "cur_ok W cur = (length (join_space cur) \<le> max_chars_per_line \<or> (\<exists>w\<in>W. cur = [w]))"

text \<open>The normalisation before the final \<^verbatim>\<open>strip\<close>.\<close>

definition unquote :: "string \<Rightarrow> string" where
  "unquote s = remove_char APOS (remove_char DQUOTE (lower s))"

text \<open>The loop invariant of the quote source, for the set \<open>H\<close> read from the history: the
  used set is \<open>H\<close> with the normalised new quotes, which are pairwise different and
  outside \<open>H\<close>.\<close>

definition fresh_inv :: "string set \<Rightarrow> string set \<times> string list \<Rightarrow> bool" where
  "fresh_inv H st =
     (case st of (U, N) \<Rightarrow>
        U = H \<union> normalize ` set N \<and> distinct (map normalize N) \<and>
        (\<forall>q\<in>set N. normalize q \<notin> H))"

text \<open>No occurrence of the separator starts inside \<open>a\<close> when \<open>a\<close> is followed by the
  separator: the separator after \<open>a\<close> is then the first one.\<close>

definition first_at :: "string \<Rightarrow> bool" where
  "first_at a = (\<not> sublist separator (a @ butlast separator))"

text \<open>Example inputs: a history with one used quote, a history with a used quote and a
  blank line, and replies of the endpoint.\<close>

definition seen_history :: text_files where
  "seen_history = [history_file \<mapsto> ''I see dead people - The Sixth Sense (1999)'' @ [LF]]"

definition blank_history :: text_files where
  "blank_history = [history_file \<mapsto> ''Be afraid - The Fly (1986)'' @ [LF, LF]]"

definition repeat_reply :: string where
  "repeat_reply =
     ''I SEE dead people - the sixth sense (1999)  '' @ [LF, LF] @ ''Be afraid - The Fly (1986)''"

definition marks_reply :: string where
  "marks_reply = [DQUOTE, DQUOTE]"

text \<open>The number a decimal numeral stands for.\<close>

definition digits_value :: "string \<Rightarrow> nat" where
  "digits_value s = foldl (\<lambda>n c. 10 * n + (of_char c - 48)) 0 s"

text \<open>The frame stored by one iteration of the composer's loop.\<close>

definition frame_result :: "imaging \<Rightarrow> nat \<Rightarrow> path \<Rightarrow> string \<Rightarrow> frame_image" where
  "frame_result env i background_path quote =
     (case compose_frame env i background_path quote of
        Inr img \<Rightarrow> img
      | Inl e \<Rightarrow> ErrorFrame (''Error: '' @ e))"

text \<open>The loop as it runs when the print of line 425 and the handler do not raise: one
  path and one frame per iteration.\<close>

definition plain_step ::
  "imaging \<Rightarrow> nat \<Rightarrow> path \<Rightarrow> string \<Rightarrow> path list \<times> frame_files \<Rightarrow> path list \<times> frame_files" where
  "plain_step env i background_path quote st =
     (case st of (frame_paths, files) \<Rightarrow>
        (frame_paths @ [frame_file i],
         files(frame_file i \<mapsto> frame_result env i background_path quote)))"

fun plain_loop ::
  "imaging \<Rightarrow> nat \<Rightarrow> (path \<times> string) list \<Rightarrow> path list \<times> frame_files \<Rightarrow> path list \<times> frame_files" where
  "plain_loop env i [] st = st"
| "plain_loop env i ((background_path, quote) # rest) st =
     plain_loop env (i + 1) rest (plain_step env i background_path quote st)"

text \<open>The condition on iteration \<open>i\<close> under which it runs so.\<close>

definition quiet_step :: "imaging \<Rightarrow> nat \<Rightarrow> path \<Rightarrow> string \<Rightarrow> bool" where
  "quiet_step env i background_path quote =
     (created_print_error env i = None \<and>
      (isl (compose_frame env i background_path quote) \<longrightarrow> handler_error env i = None))"

text \<open>Example inputs for the composer. Drawing the second frame raises in all three;
  in the second the handler's own save raises too (the disk is full); in the third the
  print after the first frame raises.\<close>

definition demo_imaging :: imaging where
  "demo_imaging =
     \<lparr>background_loads = (\<lambda>p. True),
      draw_error = (\<lambda>i lines title. if i = 1 then Some ''cannot encode character'' else None),
      created_print_error = (\<lambda>i. None),
      handler_error = (\<lambda>i. None)\<rparr>"

definition full_disk_imaging :: imaging where
  "full_disk_imaging =
     \<lparr>background_loads = (\<lambda>p. True),
      draw_error = (\<lambda>i lines title. if i = 1 then Some ''No space left on device'' else None),
      created_print_error = (\<lambda>i. None),
      handler_error = (\<lambda>i. if i = 1 then Some ''No space left on device'' else None)\<rparr>"

definition mute_console_imaging :: imaging where
  "mute_console_imaging =
     \<lparr>background_loads = (\<lambda>p. True),
      draw_error = (\<lambda>i lines title. if i = 1 then Some ''cannot encode character'' else None),
      created_print_error = (\<lambda>i. if i = 0 then Some ''cannot encode character'' else None),
      handler_error = (\<lambda>i. None)\<rparr>"

definition demo_backgrounds :: "path list" where
  "demo_backgrounds = [''images/background_1.png'', ''images/background_2.png'']"

definition demo_quotes :: "string list" where
  "demo_quotes = [''1. Be afraid. Be very afraid. - The Fly (1986)'', ''They are here - Poltergeist (1982)'']"

text \<open>Example inputs for the assembler: a probe that accepts the audio, encoders whose
  return codes are given, and a copy that succeeds.\<close>

definition demo_run :: "int \<Rightarrow> int \<Rightarrow> string list \<Rightarrow> media_files \<Rightarrow> proc_result option" where
  "demo_run silent_rc audio_rc cmd fs =
     (if take 1 cmd = [''ffprobe''] then Some \<lparr>returncode = 0, produced = None\<rparr>
      else if take 1 (drop 2 cmd) = [''-f'']
           then Some \<lparr>returncode = silent_rc,
                      produced = (if silent_rc = 0 then Some ''SILENT VIDEO'' else None)\<rparr>
           else Some \<lparr>returncode = audio_rc,
                      produced = (if audio_rc = 0 then Some ''VIDEO WITH AUDIO''
                                  else Some ''TRUNCATED'')\<rparr>)"

definition demo_system :: "int \<Rightarrow> int \<Rightarrow> system" where
  "demo_system silent_rc audio_rc =
     \<lparr>abspath = (\<lambda>p. ''/app/'' @ p),
      mkdtemp = Some ''/tmp/tmpk3'',
      named_temporary_file = Some ''/tmp/tmpq7.txt'',
      subprocess_run = demo_run silent_rc audio_rc,
      copy_error = (\<lambda>src dst fs. False)\<rparr>"



definition demo_media :: media_files where
  "demo_media = [''/app/audio/theme.mp3'' \<mapsto> ''MUSIC'']"

section \<open>Properties of the word wrap\<close>

lemma split_scan_good:
  "\<forall>c\<in>set w. \<not> is_space c \<Longrightarrow> \<forall>x\<in>set (split_scan w s). good_word x"
proof (induction s arbitrary: w)
  case Nil
  then show ?case by (simp add: good_word_def)
next
  case (Cons c cs)
  have empty: "\<forall>x\<in>set (split_scan [] cs). good_word x"
    using Cons.IH [of "[]"] by simp
  show ?case
  proof (cases "is_space c")
    case True
    with empty Cons.prems show ?thesis by (simp add: good_word_def)
  next
    case False
    with Cons.prems have "\<forall>x\<in>set (w @ [c]). \<not> is_space x" by simp
    from Cons.IH [OF this] False show ?thesis by simp
  qed
qed

lemma split_ws_good: "\<forall>x\<in>set (split_ws s). good_word x"
  unfolding split_ws_def by (rule split_scan_good) simp

lemma split_scan_nospace:
  "\<forall>c\<in>set u. \<not> is_space c \<Longrightarrow> split_scan w (u @ r) = split_scan (w @ u) r"
  by (induction u arbitrary: w) auto

lemma is_space_SP: "is_space SP"
  by (simp add: is_space_def SP_def)

lemma split_scan_word:
  assumes "good_word w"
  shows "split_scan [] (w @ SP # r) = w # split_scan [] r"
proof -
  have "split_scan [] (w @ SP # r) = split_scan w (SP # r)"
    using assms split_scan_nospace [of w "[]" "SP # r"] by (simp add: good_word_def)
  also have "\<dots> = w # split_scan [] r"
    using assms by (simp add: is_space_SP good_word_def)
  finally show ?thesis .
qed

lemma split_ws_single: "good_word w \<Longrightarrow> split_ws w = [w]"
  using split_scan_nospace [of w "[]" "[]"] by (simp add: split_ws_def good_word_def)

lemma split_ws_join: "\<forall>w\<in>set ws. good_word w \<Longrightarrow> split_ws (join_space ws) = ws"
proof (induction ws rule: join_space.induct)
  case 1
  then show ?case by (simp add: split_ws_def)
next
  case (2 w)
  then show ?case by (simp add: split_ws_single)
next
  case (3 w v ws)
  then show ?case using split_scan_word [of w "join_space (v # ws)"] by (simp add: split_ws_def)
qed

lemma wrap_loop_words:
  "\<forall>w\<in>set (cur @ ws). good_word w \<Longrightarrow>
   concat (map split_ws (flush (wrap_loop ws cur lines))) = concat (map split_ws lines) @ cur @ ws"
proof (induction ws arbitrary: cur lines)
  case Nil
  then show ?case by (simp add: flush_def split_ws_join)
next
  case (Cons w ws)
  then show ?case by (simp add: split_ws_join split_ws_single)
qed

lemma wrap_lines_words:
  "\<forall>w\<in>set ws. good_word w \<Longrightarrow> concat (map split_ws (wrap_lines ws)) = ws"
  using wrap_loop_words [of "[]" ws "[]"] by (simp add: wrap_lines_def flush_def)

lemma cur_ok_line: "cur_ok W cur \<Longrightarrow> line_ok W (join_space cur)"
  by (auto simp: cur_ok_def line_ok_def)

lemma wrap_loop_budget:
  "set ws \<subseteq> W \<Longrightarrow> cur_ok W cur \<Longrightarrow> \<forall>l\<in>set lines. line_ok W l \<Longrightarrow>
   \<forall>l\<in>set (flush (wrap_loop ws cur lines)). line_ok W l"
proof (induction ws arbitrary: cur lines)
  case Nil
  then show ?case by (auto simp: flush_def cur_ok_line)
next
  case (Cons w ws)
  from Cons.prems(1) have w: "w \<in> W" and ws: "set ws \<subseteq> W" by simp_all
  show ?case
  proof (cases "length (join_space (cur @ [w])) \<le> max_chars_per_line")
    case True
    then have "cur_ok W (cur @ [w])" by (simp add: cur_ok_def)
    from Cons.IH [OF ws this Cons.prems(3)] True show ?thesis by simp
  next
    case False
    show ?thesis
    proof (cases "cur = []")
      case True
      with False w have "line_ok W w" by (simp add: line_ok_def)
      with Cons.prems(3) have "\<forall>l\<in>set (lines @ [w]). line_ok W l" by simp
      from Cons.IH [OF ws Cons.prems(2) this] True False show ?thesis by simp
    next
      case nonempty: False
      have one: "cur_ok W [w]" using w by (simp add: cur_ok_def)
      have "\<forall>l\<in>set (lines @ [join_space cur]). line_ok W l"
        using Cons.prems(2,3) by (simp add: cur_ok_line)
      from Cons.IH [OF ws one this] False nonempty show ?thesis by simp
    qed
  qed
qed

text \<open>
  Claim C2. Every line the greedy wrap produces for a quote text has at most 25
  characters, the joining spaces counted, unless the line is a single word of the text
  that is itself longer than 25 characters.
\<close>

theorem wrap_line_budget:
  "\<forall>line\<in>set (wrap_text quote_text).
     length line \<le> 25 \<or> (line \<in> set (split_ws quote_text) \<and> 25 < length line)"
  using wrap_loop_budget [of "split_ws quote_text" "set (split_ws quote_text)" "[]" "[]"]
  by (simp add: wrap_text_def wrap_lines_def flush_def cur_ok_def line_ok_def max_chars_per_line_def)

theorem wrap_line_budget_witness:
  "wrap_text ''Do you like scary Supercalifragilisticexpialidocious movies?'' =
     [''Do you like scary'', ''Supercalifragilisticexpialidocious'', ''movies?''] \<and>
   (length ''Supercalifragilisticexpialidocious'' \<le> 25 \<or>
    (''Supercalifragilisticexpialidocious'' \<in>
       set (split_ws ''Do you like scary Supercalifragilisticexpialidocious movies?'') \<and>
     25 < length ''Supercalifragilisticexpialidocious'')) \<and>
   length ''Do you like scary'' \<le> 25"
proof -
  have lines: "wrap_text ''Do you like scary Supercalifragilisticexpialidocious movies?'' =
     [''Do you like scary'', ''Supercalifragilisticexpialidocious'', ''movies?'']"
    by code_simp
  have long: "\<not> length ''Supercalifragilisticexpialidocious'' \<le> 25" by simp
  have short: "\<not> 25 < length ''Do you like scary''" by simp
  from wrap_line_budget [of "''Do you like scary Supercalifragilisticexpialidocious movies?''"]
  have "\<forall>line\<in>set [''Do you like scary'', ''Supercalifragilisticexpialidocious'', ''movies?''].
     length line \<le> 25 \<or>
     (line \<in> set (split_ws ''Do you like scary Supercalifragilisticexpialidocious movies?'') \<and>
      25 < length line)"
    unfolding lines .
  with lines short show ?thesis by auto
qed

text \<open>
  Claim C9. The wrap loses and duplicates nothing: the words of the produced lines, read
  in order, are exactly the whitespace-separated words of the quote text.
\<close>

theorem wrap_preserves_words:
  "concat (map split_ws (wrap_text quote_text)) = split_ws quote_text"
  unfolding wrap_text_def by (rule wrap_lines_words) (rule split_ws_good)

section \<open>Properties of the quote source\<close>

lemma is_space_lower_char: "is_space (lower_char c) = is_space c"
  by (auto simp: is_space_def lower_char_def Let_def)

lemma unquote_append: "unquote (a @ b) = unquote a @ unquote b"
  by (simp add: unquote_def remove_char_def lower_def)

lemma unquote_spaces: "\<forall>c\<in>set a. is_space c \<Longrightarrow> \<forall>c\<in>set (unquote a). is_space c"
  by (auto simp: unquote_def remove_char_def lower_def is_space_lower_char)

text \<open>Whitespace around a text does not change what \<^const>\<open>strip\<close> returns.\<close>

lemma strip_pad:
  assumes a: "\<forall>c\<in>set a. is_space c" and b: "\<forall>c\<in>set b. is_space c"
  shows "strip (a @ x @ b) = strip x"
proof -
  have front: "dropWhile is_space (a @ x @ b) = dropWhile is_space (x @ b)"
    using a by (simp add: dropWhile_append2)
  have rear: "dropWhile is_space (rev (dropWhile is_space (x @ b))) =
      dropWhile is_space (rev (dropWhile is_space x))"
  proof (cases "\<forall>c\<in>set x. is_space c")
    case True
    have e: "dropWhile is_space (x @ b) = []" "dropWhile is_space x = []"
      unfolding dropWhile_eq_Nil_conv using True b by auto
    show ?thesis by (simp only: e)
  next
    case False
    then obtain c where "c \<in> set x" "\<not> is_space c" by blast
    then have split: "dropWhile is_space (x @ b) = dropWhile is_space x @ b"
      by (simp add: dropWhile_append1)
    have "dropWhile is_space (rev b @ rev (dropWhile is_space x)) =
        dropWhile is_space (rev (dropWhile is_space x))"
      by (rule dropWhile_append2) (use b in simp)
    then show ?thesis by (simp only: split rev_append)
  qed
  show ?thesis unfolding strip_def front rear ..
qed

lemma strip_decomp:
  "\<exists>a b. s = a @ strip s @ b \<and> (\<forall>c\<in>set a. is_space c) \<and> (\<forall>c\<in>set b. is_space c)"
proof -
  define d where "d = dropWhile is_space s"
  have "rev (dropWhile is_space (rev d)) @ rev (takeWhile is_space (rev d)) =
      rev (takeWhile is_space (rev d) @ dropWhile is_space (rev d))"
    by (simp only: rev_append)
  also have "\<dots> = rev (rev d)" by (simp only: takeWhile_dropWhile_id)
  also have "\<dots> = d" by simp
  finally have d: "d = strip s @ rev (takeWhile is_space (rev d))"
    by (simp add: strip_def d_def)
  have "s = takeWhile is_space s @ d" by (simp add: d_def)
  with d have "s = takeWhile is_space s @ strip s @ rev (takeWhile is_space (rev d))" by simp
  moreover have "\<forall>c\<in>set (takeWhile is_space s). is_space c"
    by (auto dest: set_takeWhileD)
  moreover have "\<forall>c\<in>set (rev (takeWhile is_space (rev d))). is_space c"
    by (auto dest: set_takeWhileD)
  ultimately show ?thesis by blast
qed

text \<open>Line 83 strips a history line before line 86 normalises it; the normalisation of
  the line as read is the same.\<close>

lemma normalize_strip: "normalize (strip l) = normalize l"
proof -
  obtain a b where l: "l = a @ strip l @ b"
    and a: "\<forall>c\<in>set a. is_space c" and b: "\<forall>c\<in>set b. is_space c"
    using strip_decomp by blast
  have "normalize l = strip (unquote (a @ strip l @ b))"
    using l by (simp add: normalize_def unquote_def)
  also have "\<dots> = strip (unquote a @ unquote (strip l) @ unquote b)"
    by (simp add: unquote_append)
  also have "\<dots> = strip (unquote (strip l))"
    using a b by (intro strip_pad unquote_spaces)
  finally show ?thesis by (simp add: normalize_def unquote_def)
qed

lemma load_history_set:
  "load_history ls U = U \<union> {normalize l | l. l \<in> set ls \<and> strip l \<noteq> []}"
  by (induction ls arbitrary: U) (auto simp: Let_def normalize_strip)

lemma check_quotes_inv: "fresh_inv H st \<Longrightarrow> fresh_inv H (check_quotes count qs st)"
proof (induction count qs st rule: check_quotes.induct)
  case (1 count st)
  then show ?case by simp
next
  case (2 count quote rest used_quotes all_new_quotes)
  show ?case
  proof (cases "int (length all_new_quotes) \<ge> count")
    case True
    with 2 show ?thesis by simp
  next
    case full: False
    show ?thesis
    proof (cases "normalize quote \<notin> used_quotes")
      case True
      with "2.prems" have "fresh_inv H (insert (normalize quote) used_quotes, all_new_quotes @ [quote])"
        by (auto simp: fresh_inv_def)
      with "2.IH"(1) full True show ?thesis by simp
    next
      case False
      with "2.IH"(2) "2.prems" full show ?thesis by simp
    qed
  qed
qed

lemma attempt_loop_inv: "fresh_inv H st \<Longrightarrow> fresh_inv H (attempt_loop api count as st)"
proof (induction api count as st rule: attempt_loop.induct)
  case (1 api count st)
  then show ?case by simp
next
  case (2 api count attempt rest used_quotes all_new_quotes)
  show ?case
  proof (cases "int (length all_new_quotes) \<ge> count")
    case True
    with 2 show ?thesis by simp
  next
    case more: False
    show ?thesis
    proof (cases "api attempt (count - int (length all_new_quotes))")
      case None
      with "2.IH"(1) "2.prems" more show ?thesis by simp
    next
      case (Some content)
      have "fresh_inv H (check_quotes count (quote_lines content) (used_quotes, all_new_quotes))"
        using "2.prems" by (rule check_quotes_inv)
      with "2.IH"(2) more Some show ?thesis by simp
    qed
  qed
qed

lemma new_quotes_fresh:
  "fresh_inv (load_history (history_lines fs) {})
     (attempt_loop api count [0..<max_attempts] (load_history (history_lines fs) {}, []))"
  by (rule attempt_loop_inv) (simp add: fresh_inv_def)

lemma fst_get_horror_movie_quotes:
  "fst (get_horror_movie_quotes api count fs) =
     snd (attempt_loop api count [0..<max_attempts] (load_history (history_lines fs) {}, []))"
  by (simp add: get_horror_movie_quotes_def Let_def)

text \<open>
  Claim C1, as amended. The normalisation of a returned quote differs from the
  normalisation of every line of the history file, as it was at the start of the run, that
  is not blank (not empty once stripped), and no two returned quotes have the same
  normalisation. Blank lines of the history are skipped by the guard of line 84 and are
  not compared.
\<close>

theorem quotes_fresh:
  "(\<forall>q\<in>set (fst (get_horror_movie_quotes api count fs)).
      \<forall>l\<in>set (history_lines fs). strip l \<noteq> [] \<longrightarrow> normalize q \<noteq> normalize l) \<and>
   distinct (map normalize (fst (get_horror_movie_quotes api count fs)))"
proof -
  obtain U N where st:
    "attempt_loop api count [0..<max_attempts] (load_history (history_lines fs) {}, []) = (U, N)"
    by (cases "attempt_loop api count [0..<max_attempts] (load_history (history_lines fs) {}, [])")
  have inv: "fresh_inv (load_history (history_lines fs) {}) (U, N)"
    using new_quotes_fresh [of fs api count] st by simp
  have "fst (get_horror_movie_quotes api count fs) = N"
    using st by (simp add: fst_get_horror_movie_quotes)
  with inv show ?thesis
    by (auto simp: fresh_inv_def load_history_set)
qed

text \<open>The first attempt raises; the second reply repeats the used quote in another case
  and adds a new one. Only the new one is returned.\<close>

theorem quotes_fresh_witness:
  "history_lines seen_history = [''I see dead people - The Sixth Sense (1999)'' @ [LF]] \<and>
   fst (get_horror_movie_quotes (scripted_api [None, Some repeat_reply]) 2 seen_history) =
     [''Be afraid - The Fly (1986)''] \<and>
   normalize ''Be afraid - The Fly (1986)'' \<noteq>
     normalize (''I see dead people - The Sixth Sense (1999)'' @ [LF]) \<and>
   distinct (map normalize [''Be afraid - The Fly (1986)''])"
proof -
  have hist: "history_lines seen_history = [''I see dead people - The Sixth Sense (1999)'' @ [LF]]"
    by code_simp
  have res: "fst (get_horror_movie_quotes (scripted_api [None, Some repeat_reply]) 2 seen_history) =
      [''Be afraid - The Fly (1986)'']"
    by code_simp
  have nonblank: "strip (''I see dead people - The Sixth Sense (1999)'' @ [LF]) \<noteq> []"
    by code_simp
  from quotes_fresh [of "scripted_api [None, Some repeat_reply]" 2 seen_history]
  have "(\<forall>q\<in>set [''Be afraid - The Fly (1986)''].
      \<forall>l\<in>set [''I see dead people - The Sixth Sense (1999)'' @ [LF]].
        strip l \<noteq> [] \<longrightarrow> normalize q \<noteq> normalize l) \<and>
    distinct (map normalize [''Be afraid - The Fly (1986)''])"
    unfolding hist res .
  with nonblank have "normalize ''Be afraid - The Fly (1986)'' \<noteq>
     normalize (''I see dead people - The Sixth Sense (1999)'' @ [LF])"
    by simp
  with hist res show ?thesis by simp
qed

text \<open>The claim as first stated fails on a history with a blank line: the blank line
  normalises to the empty string, is not in the used set, and a reply made of quotation
  marks only, which normalises to the empty string too, is returned.\<close>

theorem blank_history_line_counterexample:
  "history_lines blank_history = [''Be afraid - The Fly (1986)'' @ [LF], [LF]] \<and>
   fst (get_horror_movie_quotes (scripted_api [Some marks_reply]) 1 blank_history) =
     [[DQUOTE, DQUOTE]] \<and>
   normalize [DQUOTE, DQUOTE] = normalize [LF]"
  by code_simp

lemma write_quotes_concat: "write_quotes qs buf = buf @ concat (map (\<lambda>q. q @ [LF]) qs)"
  by (induction qs arbitrary: buf) simp_all

lemma quote_file_not_history: "quote_file i \<noteq> history_file"
  by (simp add: quote_file_def history_file_def)

lemma store_quotes_history: "store_quotes i qs fs history_file = fs history_file"
  by (induction qs arbitrary: i fs) (simp_all add: quote_file_not_history [symmetric])

text \<open>
  Claim C10. After the call the history file is its old content followed by the returned
  quotes, in order, each ended by a newline; when no quote is returned the file is as
  before (and is not created when it was missing).
\<close>

theorem history_append_only:
  "snd (get_horror_movie_quotes api count fs) history_file =
     (if fst (get_horror_movie_quotes api count fs) = [] then fs history_file
      else Some ((case fs history_file of None \<Rightarrow> [] | Some old \<Rightarrow> old) @
                 concat (map (\<lambda>q. q @ [LF]) (fst (get_horror_movie_quotes api count fs)))))"
  by (simp add: get_horror_movie_quotes_def Let_def append_history_def store_quotes_history
      write_quotes_concat)

theorem history_append_only_witness:
  "snd (get_horror_movie_quotes (scripted_api [None, Some repeat_reply]) 2 seen_history)
     history_file =
     Some (''I see dead people - The Sixth Sense (1999)'' @ [LF] @
           ''Be afraid - The Fly (1986)'' @ [LF]) \<and>
   snd (get_horror_movie_quotes (scripted_api []) 2 seen_history) history_file =
     seen_history history_file \<and>
   snd (get_horror_movie_quotes (scripted_api [Some repeat_reply]) 0 Map.empty) history_file = None"
proof -
  have res: "fst (get_horror_movie_quotes (scripted_api [None, Some repeat_reply]) 2 seen_history) =
      [''Be afraid - The Fly (1986)'']"
    by code_simp
  have none: "fst (get_horror_movie_quotes (scripted_api []) 2 seen_history) = []"
    by code_simp
  have zero: "fst (get_horror_movie_quotes (scripted_api [Some repeat_reply]) 0 Map.empty) = []"
    by code_simp
  have old: "seen_history history_file = Some (''I see dead people - The Sixth Sense (1999)'' @ [LF])"
    by (simp add: seen_history_def)
  show ?thesis
    using history_append_only [of "scripted_api [None, Some repeat_reply]" 2 seen_history]
      history_append_only [of "scripted_api []" 2 seen_history]
      history_append_only [of "scripted_api [Some repeat_reply]" 0 Map.empty]
    unfolding res none zero old by simp
qed

section \<open>Properties of the quote and title split\<close>

lemma split_sep_scan_none:
  "\<not> sublist sep s \<Longrightarrow> split_sep_scan sep piece s = [piece @ s]"
proof (induction s arbitrary: piece)
  case Nil
  then show ?case by simp
next
  case (Cons c cs)
  from Cons.prems have "\<not> prefix sep (c # cs)" and "\<not> sublist sep cs"
    by (simp_all add: sublist_Cons_right)
  with Cons.IH [of "piece @ [c]"] show ?case by simp
qed

lemma prefix_within:
  assumes "prefix xs (ys @ zs)" and "length xs \<le> length ys"
  shows "prefix xs ys"
proof -
  from assms(1) obtain us where "ys @ zs = xs @ us" by (auto simp: prefix_def)
  then have "take (length xs) (ys @ zs) = xs" by simp
  with assms(2) have "take (length xs) ys = xs" by simp
  then show ?thesis by (metis take_is_prefix)
qed

text \<open>The scan cuts at the first occurrence of the separator and starts afresh behind it.\<close>

lemma split_sep_scan_first:
  assumes "sep \<noteq> []"
  shows "\<not> sublist sep (a @ butlast sep) \<Longrightarrow>
    split_sep_scan sep piece (a @ sep @ b) = (piece @ a) # split_sep_scan sep [] b"
proof (induction a arbitrary: piece)
  case Nil
  from assms obtain x xs where sep: "sep = x # xs" by (cases sep) auto
  then show ?case by simp
next
  case (Cons c a)
  have "\<not> prefix sep ((c # a) @ sep @ b)"
  proof
    assume whole: "prefix sep ((c # a) @ sep @ b)"
    have "(butlast sep @ [last sep]) @ b = sep @ b"
      by (simp only: append_butlast_last_id [OF assms])
    then have "((c # a) @ butlast sep) @ ([last sep] @ b) = (c # a) @ sep @ b"
      by simp
    with whole have "prefix sep (((c # a) @ butlast sep) @ ([last sep] @ b))"
      by (simp only:)
    then have "prefix sep ((c # a) @ butlast sep)"
      by (rule prefix_within) simp
    with Cons.prems show False by (auto dest: prefix_imp_sublist)
  qed
  moreover have "\<not> sublist sep (a @ butlast sep)"
    using Cons.prems by (simp add: sublist_Cons_right)
  ultimately show ?case using Cons.IH [of "piece @ [c]"] by simp
qed

text \<open>
  Claim C7, as amended. The quote is cut at every occurrence of the separator
  \<^verbatim>\<open>' - '\<close>, scanning from the left. The quote text is what precedes the first separator,
  stripped. The title is what lies between the first separator and the second one,
  stripped, or all that follows the first separator when there is no second one; it is
  \<^verbatim>\<open>Unknown\<close> when the quote has no separator.
\<close>

theorem split_quote_parts:
  "(\<not> sublist separator q \<longrightarrow> split_quote q = Inr (strip q, ''Unknown'')) \<and>
   (\<forall>a b. q = a @ separator @ b \<and> first_at a \<and> \<not> sublist separator b \<longrightarrow>
      split_quote q = Inr (strip a, strip b)) \<and>
   (\<forall>a b c. q = a @ separator @ b @ separator @ c \<and> first_at a \<and> first_at b \<longrightarrow>
      split_quote q = Inr (strip a, strip b))"
proof -
  have sep: "separator \<noteq> []" by (simp add: separator_def)
  have none: "split_quote q = Inr (strip q, ''Unknown'')" if "\<not> sublist separator q"
    using that by (simp add: split_quote_def split_sep_def split_sep_scan_none)
  have one: "split_quote (a @ separator @ b) = Inr (strip a, strip b)"
    if "first_at a" "\<not> sublist separator b" for a b
    using that split_sep_scan_first [OF sep, of a "[]" b]
    by (simp add: split_quote_def split_sep_def split_sep_scan_none first_at_def)
  have two: "split_quote (a @ separator @ b @ separator @ c) = Inr (strip a, strip b)"
    if "first_at a" "first_at b" for a b c
    using that split_sep_scan_first [OF sep, of a "[]" "b @ separator @ c"]
      split_sep_scan_first [OF sep, of b "[]" c]
    by (simp add: split_quote_def split_sep_def first_at_def)
  from none one two show ?thesis by blast
qed

theorem split_quote_parts_witness:
  "split_quote ''  Be afraid. Be very afraid.'' = Inr (''Be afraid. Be very afraid.'', ''Unknown'') \<and>
   split_quote (''Be afraid '' @ separator @ '' The Fly (1986)'') =
     Inr (''Be afraid'', ''The Fly (1986)'') \<and>
   split_quote (''We have such sights to show you'' @ separator @ ''Hellraiser'' @ separator @
       ''Directors Cut (1987)'') =
     Inr (''We have such sights to show you'', ''Hellraiser'')"
proof -
  have h0: "\<not> sublist separator ''  Be afraid. Be very afraid.''" by code_simp
  have h1: "first_at ''Be afraid ''" "\<not> sublist separator '' The Fly (1986)''" by code_simp+
  have h2: "first_at ''We have such sights to show you''" "first_at ''Hellraiser''" by code_simp+
  have s: "strip ''  Be afraid. Be very afraid.'' = ''Be afraid. Be very afraid.''"
    "strip ''Be afraid '' = ''Be afraid''" "strip '' The Fly (1986)'' = ''The Fly (1986)''"
    "strip ''We have such sights to show you'' = ''We have such sights to show you''"
    "strip ''Hellraiser'' = ''Hellraiser''"
    by code_simp+
  from split_quote_parts [of "''  Be afraid. Be very afraid.''"] h0
  have "split_quote ''  Be afraid. Be very afraid.'' =
      Inr (strip ''  Be afraid. Be very afraid.'', ''Unknown'')"
    by blast
  then have r0: "split_quote ''  Be afraid. Be very afraid.'' =
      Inr (''Be afraid. Be very afraid.'', ''Unknown'')"
    by (simp only: s)
  from split_quote_parts [of "''Be afraid '' @ separator @ '' The Fly (1986)''"] h1
  have "split_quote (''Be afraid '' @ separator @ '' The Fly (1986)'') =
      Inr (strip ''Be afraid '', strip '' The Fly (1986)'')"
    by blast
  then have r1: "split_quote (''Be afraid '' @ separator @ '' The Fly (1986)'') =
      Inr (''Be afraid'', ''The Fly (1986)'')"
    by (simp only: s)
  from split_quote_parts [of "''We have such sights to show you'' @ separator @
       ''Hellraiser'' @ separator @ ''Directors Cut (1987)''"] h2
  have "split_quote (''We have such sights to show you'' @ separator @ ''Hellraiser'' @ separator @
       ''Directors Cut (1987)'') =
      Inr (strip ''We have such sights to show you'', strip ''Hellraiser'')"
    by blast
  then have r2: "split_quote (''We have such sights to show you'' @ separator @ ''Hellraiser'' @
       separator @ ''Directors Cut (1987)'') = Inr (''We have such sights to show you'', ''Hellraiser'')"
    by (simp only: s)
  from r0 r1 r2 show ?thesis by (intro conjI)
qed

text \<open>The claim as first stated takes the title to be all that follows the first
  separator. With a second separator in the quote the title stops there.\<close>

theorem title_after_first_separator_counterexample:
  "''We have such sights to show you - Hellraiser - Directors Cut (1987)'' =
     ''We have such sights to show you'' @ separator @ ''Hellraiser - Directors Cut (1987)'' \<and>
   first_at ''We have such sights to show you'' \<and>
   split_quote ''We have such sights to show you - Hellraiser - Directors Cut (1987)'' =
     Inr (''We have such sights to show you'', ''Hellraiser'') \<and>
   strip ''Hellraiser - Directors Cut (1987)'' = ''Hellraiser - Directors Cut (1987)'' \<and>
   ''Hellraiser'' \<noteq> ''Hellraiser - Directors Cut (1987)''"
  by code_simp

section \<open>Properties of the frame composer\<close>

text \<open>Decimal numerals are read back to the number they print, so the frame files of
  different indices have different paths.\<close>

lemma digits_value_snoc: "digits_value (s @ [c]) = 10 * digits_value s + (of_char c - 48)"
  by (simp add: digits_value_def)

lemma digit_char_value: "d < 10 \<Longrightarrow> (of_char (digit_char d) :: nat) - 48 = d"
  by (simp add: digit_char_def)

lemma digits_value_str_nat: "digits_value (str_nat n) = n"
proof (induction n rule: str_nat.induct)
  case (1 n)
  show ?case
  proof (cases "n < 10")
    case True
    then show ?thesis
      using digits_value_snoc [of "[]" "digit_char n"]
      by (simp add: str_nat.simps [of n] digit_char_value digits_value_def)
  next
    case False
    with 1 have "digits_value (str_nat (n div 10)) = n div 10" by simp
    with False show ?thesis
      by (simp add: str_nat.simps [of n] digits_value_snoc digit_char_value)
  qed
qed

lemma str_nat_inj: "str_nat a = str_nat b \<Longrightarrow> a = b"
  by (metis digits_value_str_nat)

lemma frame_file_inj: "frame_file i = frame_file j \<Longrightarrow> i = j"
  by (auto simp: frame_file_def dest: str_nat_inj)

lemma plain_loop_paths:
  "fst (plain_loop env i items (ps, files)) = ps @ map frame_file [i..<i + length items]"
proof (induction items arbitrary: i ps files)
  case Nil
  then show ?case by simp
next
  case (Cons item items)
  obtain bg q where item: "item = (bg, q)" by (cases item)
  have "[i..<i + length (item # items)] = i # [Suc i..<Suc i + length items]"
    by (subst upt_rec) simp
  with Cons [of "Suc i"] item show ?case
    by (simp add: plain_step_def)
qed

lemma plain_loop_earlier:
  "j < i \<Longrightarrow> snd (plain_loop env i items (ps, files)) (frame_file j) = files (frame_file j)"
proof (induction items arbitrary: i ps files)
  case Nil
  then show ?case by simp
next
  case (Cons item items)
  obtain bg q where item: "item = (bg, q)" by (cases item)
  from Cons.prems have "frame_file j \<noteq> frame_file i" by (auto dest: frame_file_inj)
  with Cons.IH [of "Suc i"] Cons.prems item show ?case by (simp add: plain_step_def)
qed

lemma plain_loop_files:
  "k < length items \<Longrightarrow>
   snd (plain_loop env i items (ps, files)) (frame_file (i + k)) =
     Some (frame_result env (i + k) (fst (items ! k)) (snd (items ! k)))"
proof (induction items arbitrary: i k ps files)
  case Nil
  then show ?case by simp
next
  case (Cons item items)
  obtain bg q where item: "item = (bg, q)" by (cases item)
  show ?case
  proof (cases k)
    case 0
    with item show ?thesis
      using plain_loop_earlier [of i "Suc i" env items]
      by (simp add: plain_step_def)
  next
    case (Suc k')
    with Cons.prems have "k' < length items" by simp
    from Cons.IH [OF this, of "Suc i"] Suc item show ?thesis
      by (simp add: plain_step_def)
  qed
qed

text \<open>When neither the print of line 425 nor the handler raises, an iteration appends one
  path and stores one frame.\<close>

lemma frame_step_quiet:
  "quiet_step env i bg q \<Longrightarrow> frame_step env i bg q st = Inr (plain_step env i bg q st)"
  by (cases st)
    (auto simp: quiet_step_def frame_step_def error_handler_def plain_step_def frame_result_def
      Let_def split: sum.splits option.splits)

lemma frames_loop_quiet:
  "\<forall>k<length items. quiet_step env (i + k) (fst (items ! k)) (snd (items ! k)) \<Longrightarrow>
   frames_loop env i items st = Inr (plain_loop env i items st)"
proof (induction items arbitrary: i st)
  case Nil
  then show ?case by simp
next
  case (Cons item items)
  obtain bg q where item: "item = (bg, q)" by (cases item)
  from Cons.prems have first: "quiet_step env i bg q"
    using item by (auto dest: spec [of _ 0])
  have rest: "\<forall>k<length items. quiet_step env (Suc i + k) (fst (items ! k)) (snd (items ! k))"
  proof (intro allI impI)
    fix k assume "k < length items"
    then have "Suc k < length (item # items)" by simp
    with Cons.prems have "quiet_step env (i + Suc k) (fst ((item # items) ! Suc k))
        (snd ((item # items) ! Suc k))"
      by blast
    then show "quiet_step env (Suc i + k) (fst (items ! k)) (snd (items ! k))" by simp
  qed
  from Cons.IH [OF rest] first item show ?case
    by (simp add: frame_step_quiet)
qed

text \<open>
  Claim C3, as amended. For background paths and quotes of equal length, when no call of
  the \<^verbatim>\<open>except\<close> handler raises for a frame whose composition raises, and the print that
  follows a saved frame (line 425) does not raise, the composer returns as many frame
  paths as there are quotes; the path at position \<open>i\<close> is the \<open>i\<close>-th frame file, and that
  file holds the frame composed from the \<open>i\<close>-th background and the \<open>i\<close>-th quote, or, when
  composing it raises, the error frame with the exception's message.
\<close>

theorem one_frame_per_quote:
  assumes "length background_paths = length quotes"
    and "\<forall>i<length quotes.
           created_print_error env i = None \<and>
           (isl (compose_frame env i (background_paths ! i) (quotes ! i)) \<longrightarrow>
            handler_error env i = None)"
  shows "\<exists>frame_paths files'.
    create_frames_with_text env background_paths quotes files = Inr (frame_paths, files') \<and>
    length frame_paths = length quotes \<and>
    (\<forall>i<length quotes.
       frame_paths ! i = frame_file i \<and>
       files' (frame_file i) =
         Some (case compose_frame env i (background_paths ! i) (quotes ! i) of
                 Inr img \<Rightarrow> img
               | Inl e \<Rightarrow> ErrorFrame (''Error: '' @ e)))"
proof -
  let ?items = "zip background_paths quotes"
  have len: "length ?items = length quotes"
    using assms(1) by simp
  have "\<forall>k<length ?items. quiet_step env (0 + k) (fst (?items ! k)) (snd (?items ! k))"
    using assms by (simp add: quiet_step_def)
  then have run: "create_frames_with_text env background_paths quotes files =
      Inr (plain_loop env 0 ?items ([], files))"
    unfolding create_frames_with_text_def by (rule frames_loop_quiet)
  have paths: "fst (plain_loop env 0 ?items ([], files)) = map frame_file [0..<length quotes]"
    using plain_loop_paths [of env 0 ?items "[]" files] len by simp
  have stored: "snd (plain_loop env 0 ?items ([], files)) (frame_file i) =
      Some (frame_result env i (background_paths ! i) (quotes ! i))" if "i < length quotes" for i
    using plain_loop_files [of i ?items env 0 "[]" files] that assms(1) by simp
  have "create_frames_with_text env background_paths quotes files =
      Inr (fst (plain_loop env 0 ?items ([], files)), snd (plain_loop env 0 ?items ([], files)))"
    using run by simp
  moreover have "length (fst (plain_loop env 0 ?items ([], files))) = length quotes"
    using paths by simp
  moreover have "\<forall>i<length quotes.
       fst (plain_loop env 0 ?items ([], files)) ! i = frame_file i \<and>
       snd (plain_loop env 0 ?items ([], files)) (frame_file i) =
         Some (case compose_frame env i (background_paths ! i) (quotes ! i) of
                 Inr img \<Rightarrow> img
               | Inl e \<Rightarrow> ErrorFrame (''Error: '' @ e))"
    using paths stored by (simp add: frame_result_def)
  ultimately show ?thesis by blast
qed

theorem one_frame_per_quote_witness:
  "length demo_backgrounds = length demo_quotes \<and>
   map_sum id fst (create_frames_with_text demo_imaging demo_backgrounds demo_quotes Map.empty) =
     Inr [''frames/frame_1.png'', ''frames/frame_2.png''] \<and>
   map_sum id (\<lambda>r. snd r ''frames/frame_1.png'')
       (create_frames_with_text demo_imaging demo_backgrounds demo_quotes Map.empty) =
     Inr (Some (TextFrame (Gradient ''images/background_1.png'') [''Be afraid. Be very'', ''afraid.'']
             ''- The Fly (1986)'')) \<and>
   map_sum id (\<lambda>r. snd r ''frames/frame_2.png'')
       (create_frames_with_text demo_imaging demo_backgrounds demo_quotes Map.empty) =
     Inr (Some (ErrorFrame ''Error: cannot encode character''))"
proof -
  have len: "length demo_backgrounds = length demo_quotes"
    by (simp add: demo_backgrounds_def demo_quotes_def)
  have two: "length demo_quotes = 2" by (simp add: demo_quotes_def)
  have files: "frame_file 0 = ''frames/frame_1.png''" "frame_file 1 = ''frames/frame_2.png''"
    by code_simp+
  have c0: "compose_frame demo_imaging 0 (demo_backgrounds ! 0) (demo_quotes ! 0) =
      Inr (TextFrame (Gradient ''images/background_1.png'') [''Be afraid. Be very'', ''afraid.'']
             ''- The Fly (1986)'')"
    by code_simp
  have c1: "compose_frame demo_imaging 1 (demo_backgrounds ! 1) (demo_quotes ! 1) =
      Inl ''cannot encode character''"
    by code_simp
  have quiet: "\<forall>i<length demo_quotes.
      created_print_error demo_imaging i = None \<and>
      (isl (compose_frame demo_imaging i (demo_backgrounds ! i) (demo_quotes ! i)) \<longrightarrow>
       handler_error demo_imaging i = None)"
    by (simp add: demo_imaging_def)
  from one_frame_per_quote [OF len quiet, of Map.empty]
  obtain frame_paths files' where
    run: "create_frames_with_text demo_imaging demo_backgrounds demo_quotes Map.empty =
      Inr (frame_paths, files')"
    and n: "length frame_paths = 2"
    and each: "\<forall>i<2. frame_paths ! i = frame_file i \<and>
       files' (frame_file i) =
         Some (case compose_frame demo_imaging i (demo_backgrounds ! i) (demo_quotes ! i) of
                 Inr img \<Rightarrow> img
               | Inl e \<Rightarrow> ErrorFrame (''Error: '' @ e))"
    unfolding two by blast
  from each have p0: "frame_paths ! 0 = frame_file 0" and p1: "frame_paths ! 1 = frame_file 1"
    by simp_all
  from each have f0: "files' (frame_file 0) =
      Some (case compose_frame demo_imaging 0 (demo_backgrounds ! 0) (demo_quotes ! 0) of
              Inr img \<Rightarrow> img | Inl e \<Rightarrow> ErrorFrame (''Error: '' @ e))"
    and f1: "files' (frame_file 1) =
      Some (case compose_frame demo_imaging 1 (demo_backgrounds ! 1) (demo_quotes ! 1) of
              Inr img \<Rightarrow> img | Inl e \<Rightarrow> ErrorFrame (''Error: '' @ e))"
    by simp_all
  have "frame_paths = [frame_file 0, frame_file 1]"
    using n p0 p1 by (intro nth_equalityI) (auto simp: less_Suc_eq numeral_2_eq_2)
  with f0 f1 len run show ?thesis unfolding c0 c1 files by simp
qed

text \<open>The claim as first stated has the composer return a list whenever composing a frame
  raises. The handler is not guarded: when the disk is full, saving the second frame
  raises and so does saving its error frame, and the exception leaves the function.\<close>

theorem unguarded_handler_counterexample:
  "length demo_backgrounds = length demo_quotes \<and>
   compose_frame full_disk_imaging 1 (demo_backgrounds ! 1) (demo_quotes ! 1) =
     Inl ''No space left on device'' \<and>
   create_frames_with_text full_disk_imaging demo_backgrounds demo_quotes Map.empty =
     Inl ''No space left on device''"
proof -
  have len: "length demo_backgrounds = length demo_quotes"
    by (simp add: demo_backgrounds_def demo_quotes_def)
  have raised: "compose_frame full_disk_imaging 1 (demo_backgrounds ! 1) (demo_quotes ! 1) =
      Inl ''No space left on device''"
    by code_simp
  have "map_sum id fst
      (create_frames_with_text full_disk_imaging demo_backgrounds demo_quotes Map.empty) =
      Inl ''No space left on device''"
    by code_simp
  then have "create_frames_with_text full_disk_imaging demo_backgrounds demo_quotes Map.empty =
      Inl ''No space left on device''"
    by (cases "create_frames_with_text full_disk_imaging demo_backgrounds demo_quotes Map.empty")
      simp_all
  with len raised show ?thesis by (intro conjI)
qed

text \<open>When the print of line 425 raises after the first frame was saved, the handler
  appends the path of that frame a second time and replaces the frame by an error frame.\<close>

lemma print_failure_appends_twice:
  "map_sum id fst
     (create_frames_with_text mute_console_imaging demo_backgrounds demo_quotes Map.empty) =
     Inr [''frames/frame_1.png'', ''frames/frame_1.png'', ''frames/frame_2.png''] \<and>
   map_sum id (\<lambda>r. snd r ''frames/frame_1.png'')
     (create_frames_with_text mute_console_imaging demo_backgrounds demo_quotes Map.empty) =
     Inr (Some (ErrorFrame ''Error: cannot encode character''))"
  by code_simp

section \<open>Properties of the video assembler\<close>

lemma write_frames_concat:
  "write_frames ps d buf = buf @ concat (map (\<lambda>p. file_entry p @ duration_entry d) ps)"
  by (induction ps arbitrary: buf) simp_all

text \<open>
  Claim C4. The manifest is the text that holds, for each frame in input order, the line
  \<^verbatim>\<open>file '<frame>'\<close> followed by the line \<^verbatim>\<open>duration <d>\<close>, and then once more the line
  \<^verbatim>\<open>file '<frame>'\<close> for the last frame with no duration line after it; for no frames
  the manifest is empty. The character \<open>0x27\<close> is the apostrophe and \<open>0x0A\<close> the line
  feed.
\<close>

theorem manifest_layout:
  "write_manifest (map (abspath sys) frame_paths) d =
     concat (map (\<lambda>p. ''file '' @ [CHR 0x27] @ abspath sys p @ [CHR 0x27, CHR 0x0A] @
                       ''duration '' @ str_int d @ [CHR 0x0A]) frame_paths) @
     (if frame_paths = [] then []
      else ''file '' @ [CHR 0x27] @ abspath sys (last frame_paths) @ [CHR 0x27, CHR 0x0A])"
  by (simp add: write_manifest_def Let_def write_frames_concat comp_def last_map
      file_entry_def duration_entry_def APOS_def LF_def)

theorem manifest_layout_witness:
  "write_manifest (map (abspath (demo_system 0 0)) [''frames/frame_1.png'', ''frames/frame_2.png'']) 10 =
     ''file '' @ [CHR 0x27] @ ''/app/frames/frame_1.png'' @ [CHR 0x27, CHR 0x0A] @
     ''duration 10'' @ [CHR 0x0A] @
     ''file '' @ [CHR 0x27] @ ''/app/frames/frame_2.png'' @ [CHR 0x27, CHR 0x0A] @
     ''duration 10'' @ [CHR 0x0A] @
     ''file '' @ [CHR 0x27] @ ''/app/frames/frame_2.png'' @ [CHR 0x27, CHR 0x0A] \<and>
   write_manifest (map (abspath (demo_system 0 0)) [''frames/frame_1.png'']) (- 5) =
     ''file '' @ [CHR 0x27] @ ''/app/frames/frame_1.png'' @ [CHR 0x27, CHR 0x0A] @
     ''duration -5'' @ [CHR 0x0A] @
     ''file '' @ [CHR 0x27] @ ''/app/frames/frame_1.png'' @ [CHR 0x27, CHR 0x0A] \<and>
   write_manifest (map (abspath (demo_system 0 0)) []) 10 = []"
proof -
  have ten: "str_int 10 = ''10''" and minus: "str_int (- 5) = ''-5''"
    by code_simp+
  show ?thesis
    using manifest_layout [of "demo_system 0 0" "[''frames/frame_1.png'', ''frames/frame_2.png'']" 10]
      manifest_layout [of "demo_system 0 0" "[''frames/frame_1.png'']" "- 5"]
      manifest_layout [of "demo_system 0 0" "[]" 10]
    by (simp add: demo_system_def ten minus)
qed

text \<open>
  Claim C6. When the encoder of the silent video ends with a return code other than
  zero, \<^verbatim>\<open>create_video\<close> returns no path: the process exits with status 1.
\<close>

theorem silent_failure_exits:
  assumes "mkdtemp sys = Some temp_dir"
    and "named_temporary_file sys = Some frame_list_path"
    and "subprocess_run sys (silent_cmd frame_list_path (temp_dir @ ''/silent_video.mp4''))
           (fs(frame_list_path \<mapsto> write_manifest (map (abspath sys) frame_paths) d)) =
         Some silent_result"
    and "returncode silent_result \<noteq> 0"
  shows "fst (create_video sys fs frame_paths output_path music_path d) = Exited 1"
  using assms by (simp add: create_video_def try_create_video_def Let_def)

theorem silent_failure_exits_witness:
  "returncode \<lparr>returncode = 1, produced = None\<rparr> \<noteq> 0 \<and>
   fst (create_video (demo_system 1 0) demo_media [''frames/frame_1.png''] ''output/horror.mp4''
          (Some ''audio/theme.mp3'') 10) = Exited 1"
proof -
  have t: "mkdtemp (demo_system 1 0) = Some ''/tmp/tmpk3''"
    and n: "named_temporary_file (demo_system 1 0) = Some ''/tmp/tmpq7.txt''"
    by (simp_all add: demo_system_def)
  have r: "subprocess_run (demo_system 1 0)
      (silent_cmd ''/tmp/tmpq7.txt'' (''/tmp/tmpk3'' @ ''/silent_video.mp4''))
      (demo_media(''/tmp/tmpq7.txt'' \<mapsto>
         write_manifest (map (abspath (demo_system 1 0)) [''frames/frame_1.png'']) 10)) =
      Some \<lparr>returncode = 1, produced = None\<rparr>"
    by (simp add: demo_system_def demo_run_def silent_cmd_def)
  have c: "returncode \<lparr>returncode = 1, produced = None\<rparr> \<noteq> 0" by simp
  from silent_failure_exits [OF t n r c, of "''output/horror.mp4''" "Some ''audio/theme.mp3''"] c
  show ?thesis by blast
qed




section \<open>Properties of the background renderer\<close>

text \<open>
  Claim C8. The background does not depend on the quote: with the same index, the same
  generator state (and the same files and faults), two quotes give the same image path,
  the same image files and the same next generator state.
\<close>

theorem background_ignores_quote:
  "generate_background_image randint fault quote1 index g files =
   generate_background_image randint fault quote2 index g files"
  by (simp add: generate_background_image_def)

end
